theory Spec2Isabelle
  imports Main "HOL-Library.AList" "HOL-Library.Sublist"
begin

section \<open>The completion repository (CompletionRepository and its item classes)\<close>

subsection \<open>Editor values\<close>

text \<open>
  The kinds of the editor's \<^verbatim>\<open>CompletionItemKind\<close> enumeration that the program uses.
\<close>

datatype CompletionItemKind =
  Kind_Text | Kind_Method | Kind_Function | Kind_Constructor | Kind_Field
  | Kind_Variable | Kind_Class | Kind_Interface | Kind_Property | Kind_Enum
  | Kind_File | Kind_Folder | Kind_EnumMember | Kind_Constant | Kind_Struct
  | Kind_User

record FunctionParam =
  param_label :: string
  param_documentation :: string

text \<open>
  The object literals that \<^verbatim>\<open>to_completion_item\<close> builds; a field that a literal does not
  set is \<open>None\<close>.
\<close>

record CompletionItem =
  label :: string
  kind :: CompletionItemKind
  detail :: "string option"
  insertText :: "string option"
  filterText :: "string option"

record SignatureInformation =
  sig_label :: string
  sig_documentation :: string
  sig_parameters :: "FunctionParam list"

subsection \<open>The classes implementing Completion\<close>

text \<open>
  One constructor per class, with the fields in the order of the class's constructor
  (\<^verbatim>\<open>EnumMemberCompletion\<close> holds its \<^verbatim>\<open>EnumCompletion\<close> last).
\<close>

datatype Completion =
  FunctionCompletion string string string "FunctionParam list"
  | MethodCompletion string string string string "FunctionParam list"
  | DefineCompletion string
  | VariableCompletion string string
  | EnumCompletion string string
  | EnumMemberCompletion string string Completion

fun name :: "Completion \<Rightarrow> string" where
  "name (FunctionCompletion n d ds ps) = n"
| "name (MethodCompletion mm n d ds ps) = n"
| "name (DefineCompletion n) = n"
| "name (VariableCompletion n f) = n"
| "name (EnumCompletion n f) = n"
| "name (EnumMemberCompletion n f e) = n"

fun completion_kind :: "Completion \<Rightarrow> CompletionItemKind" where
  "completion_kind (FunctionCompletion n d ds ps) = Kind_Function"
| "completion_kind (MethodCompletion mm n d ds ps) = Kind_Method"
| "completion_kind (DefineCompletion n) = Kind_Variable"
| "completion_kind (VariableCompletion n f) = Kind_Variable"
| "completion_kind (EnumCompletion n f) = Kind_Enum"
| "completion_kind (EnumMemberCompletion n f e) = Kind_EnumMember"

fun to_completion_item :: "Completion \<Rightarrow> string \<Rightarrow> CompletionItem" where
  "to_completion_item (FunctionCompletion n d ds ps) file =
     \<lparr>label = n, kind = Kind_Function, detail = Some ds, insertText = None, filterText = None\<rparr>"
| "to_completion_item (MethodCompletion mm n d ds ps) file =
     \<lparr>label = mm @ ''.'' @ n, kind = Kind_Method, detail = Some ds,
      insertText = Some n, filterText = Some n\<rparr>"
| "to_completion_item (DefineCompletion n) file =
     \<lparr>label = n, kind = Kind_Variable, detail = None, insertText = None, filterText = None\<rparr>"
| "to_completion_item (VariableCompletion n f) file =
     (if file = f
      then \<lparr>label = n, kind = Kind_Variable, detail = None, insertText = None, filterText = None\<rparr>
      else \<lparr>label = '''', kind = Kind_Variable, detail = None, insertText = None,
            filterText = None\<rparr>)"
| "to_completion_item (EnumCompletion n f) file =
     \<lparr>label = n, kind = Kind_Enum, detail = None, insertText = None, filterText = None\<rparr>"
| "to_completion_item (EnumMemberCompletion n f e) file =
     \<lparr>label = n, kind = Kind_EnumMember, detail = None, insertText = None, filterText = None\<rparr>"

text \<open>\<^verbatim>\<open>get_signature\<close>; \<open>None\<close> is the \<^verbatim>\<open>undefined\<close> that four of the classes return.\<close>

fun get_signature :: "Completion \<Rightarrow> SignatureInformation option" where
  "get_signature (FunctionCompletion n d ds ps) =
     Some \<lparr>sig_label = d, sig_documentation = ds, sig_parameters = ps\<rparr>"
| "get_signature (MethodCompletion mm n d ds ps) =
     Some \<lparr>sig_label = d, sig_documentation = ds, sig_parameters = ps\<rparr>"
| "get_signature (DefineCompletion n) = None"
| "get_signature (VariableCompletion n f) = None"
| "get_signature (EnumCompletion n f) = None"
| "get_signature (EnumMemberCompletion n f e) = None"

subsection \<open>Include, FileCompletions and the repository\<close>

record Include =
  inc_uri :: string
  IsBuiltIn :: bool

text \<open>
  \<^verbatim>\<open>FileCompletions.completions\<close> is a JavaScript \<^verbatim>\<open>Map\<close>: an association list in insertion
  order, where setting a key that is present replaces its value in place
  (\<^const>\<open>AList.update\<close>).
\<close>

record FileCompletions =
  fc_completions :: "(string \<times> Completion) list"
  fc_includes :: "Include list"
  fc_uri :: string

definition new_FileCompletions :: "string \<Rightarrow> FileCompletions" where
  "new_FileCompletions u = \<lparr>fc_completions = [], fc_includes = [], fc_uri = u\<rparr>"

definition add :: "string \<Rightarrow> Completion \<Rightarrow> FileCompletions \<Rightarrow> FileCompletions" where
  "add ident completion fc = fc\<lparr>fc_completions := AList.update ident completion (fc_completions fc)\<rparr>"

definition add_include :: "string \<Rightarrow> bool \<Rightarrow> FileCompletions \<Rightarrow> FileCompletions" where
  "add_include incl builtin fc =
     fc\<lparr>fc_includes := fc_includes fc @ [\<lparr>inc_uri = incl, IsBuiltIn = builtin\<rparr>]\<rparr>"

text \<open>\<^verbatim>\<open>FileCompletions.get_completions\<close>: the values of the map, in insertion order.\<close>

definition fc_get_completions :: "FileCompletions \<Rightarrow> Completion list" where
  "fc_get_completions fc = map snd (fc_completions fc)"

text \<open>
  \<^verbatim>\<open>CompletionRepository.completions\<close>: a \<^verbatim>\<open>Map\<close> from file identity to FileCompletions,
  read with \<^const>\<open>map_of\<close> and written with \<^const>\<open>AList.update\<close>.
\<close>

type_synonym repository = "(string \<times> FileCompletions) list"

subsection \<open>The transitive closure of includes\<close>

text \<open>
  \<^verbatim>\<open>get_included_files(completions, files)\<close> loops over \<^verbatim>\<open>completions.includes\<close>; the function
  below is that loop on the includes still to visit. \<^verbatim>\<open>files\<close> is a JavaScript \<^verbatim>\<open>Set\<close>,
  which iterates in insertion order: a list without repetition, extended at the end.
  The call inside the loop is a nested recursion: the set it returns is the one the rest
  of the loop goes on with.
\<close>

function get_included_files_loop :: "repository \<Rightarrow> Include list \<Rightarrow> string list \<Rightarrow> string list" where
  "get_included_files_loop repo [] files = files"
| "get_included_files_loop repo (incl # rest) files =
     (if inc_uri incl \<in> set files then get_included_files_loop repo rest files
      else
        (case map_of repo (inc_uri incl) of
           Some include_completions \<Rightarrow>
             get_included_files_loop repo rest
               (get_included_files_loop repo (fc_includes include_completions)
                  (files @ [inc_uri incl]))
         | None \<Rightarrow> get_included_files_loop repo rest (files @ [inc_uri incl])))"
  by pat_completeness auto

lemma get_included_files_loop_grows:
  "get_included_files_loop_dom (repo, incs, files) \<Longrightarrow>
     set files \<subseteq> set (get_included_files_loop repo incs files)"
  by (induction repo incs files rule: get_included_files_loop.pinduct)
     (auto simp: get_included_files_loop.psimps split: option.splits, blast)

lemma unvisited_card_less:
  assumes "map_of repo u = Some fc" and "u \<notin> set files"
  shows "card (fst ` set repo - set (files @ [u])) < card (fst ` set repo - set files)"
proof -
  have "u \<in> fst ` set repo"
    using assms(1) by (metis map_of_SomeD fst_conv image_eqI)
  then have "fst ` set repo - set (files @ [u]) \<subset> fst ` set repo - set files"
    using assms(2) by auto
  then show ?thesis
    by (simp add: psubset_card_mono)
qed

lemma unvisited_card_mono:
  assumes "set files \<subseteq> set files'"
  shows "card (fst ` set repo - set files') \<le> card (fst ` set repo - set files)"
  by (rule card_mono) (use assms in auto)

termination get_included_files_loop
proof (relation "inv_image (less_than <*lex*> less_than)
    (\<lambda>(repo, incs, files). (card (fst ` set repo - set files), length incs))", goal_cases)
  case 1
  then show ?case by (intro wf_inv_image wf_lex_prod wf_less_than)
next
  case (2 repo incl rest files)
  then show ?case by simp
next
  case (3 repo incl rest files)
  have "card (fst ` set repo - set (files @ [inc_uri incl])) \<le> card (fst ` set repo - set files)"
    by (rule unvisited_card_mono) auto
  then show ?case by (auto simp: le_less)
next
  case (4 repo incl rest files fc)
  then show ?case using unvisited_card_less [of repo "inc_uri incl" fc files] by simp
next
  case (5 repo incl rest files fc)
  have "set files \<subseteq> set (get_included_files_loop repo (fc_includes fc) (files @ [inc_uri incl]))"
    using get_included_files_loop_grows [OF 5(3)] by simp
  from unvisited_card_mono [OF this, of repo] show ?case
    by (auto simp: le_less)
qed

definition get_included_files :: "repository \<Rightarrow> FileCompletions \<Rightarrow> string list \<Rightarrow> string list" where
  "get_included_files repo completions files =
     get_included_files_loop repo (fc_includes completions) files"

definition get_file_completions :: "repository \<Rightarrow> string \<Rightarrow> Completion list" where
  "get_file_completions repo file =
     (case map_of repo file of
        Some file_completions \<Rightarrow> fc_get_completions file_completions
      | None \<Rightarrow> [])"

text \<open>\<^verbatim>\<open>Set.add\<close>: a value already in the set keeps its place.\<close>

definition set_add :: "'a \<Rightarrow> 'a list \<Rightarrow> 'a list" where
  "set_add x xs = (if x \<in> set xs then xs else xs @ [x])"

text \<open>
  The local \<^verbatim>\<open>includes\<close> of \<^verbatim>\<open>get_all_completions\<close>, after \<^verbatim>\<open>includes.add(file)\<close>: the files
  whose items the query concatenates, in the order in which the set iterates.
\<close>

definition visible_files :: "repository \<Rightarrow> string \<Rightarrow> string list" where
  "visible_files repo file =
     (let includes0 = (case map_of repo file of
                         Some completion \<Rightarrow> get_included_files repo completion []
                       | None \<Rightarrow> [])
      in set_add file includes0)"

definition get_all_completions :: "repository \<Rightarrow> string \<Rightarrow> Completion list" where
  "get_all_completions repo file =
     foldl (\<lambda>completion file_completions. completion @ file_completions) []
       (map (\<lambda>file. get_file_completions repo file) (visible_files repo file))"

text \<open>
  The include graph of a repository state: \<open>a\<close> includes \<open>b\<close> when \<open>a\<close> is indexed and one of its
  recorded includes resolves to \<open>b\<close>. The transitive includes of a file are the files
  reachable from it by one or more include edges.
\<close>

definition include_edges :: "repository \<Rightarrow> (string \<times> string) set" where
  "include_edges repo =
     {(a, b). \<exists>fc. map_of repo a = Some fc \<and> b \<in> inc_uri ` set (fc_includes fc)}"

definition transitiveIncludes :: "repository \<Rightarrow> string \<Rightarrow> string set" where
  "transitiveIncludes repo file = (include_edges repo)\<^sup>+ `` {file}"

subsection \<open>Indexing the includes of a file\<close>

text \<open>
  \<^verbatim>\<open>parser.parse_file\<close> is not part of the sources at hand: it is a parameter, a function from
  the file named by an include (its identity, from which the path is taken), the fresh
  FileCompletions and the built-in flag to the FileCompletions it has filled in.

  \<^verbatim>\<open>read_unscanned_imports\<close> calls itself inside its loop and has no bound of its own, so it
  is a partial function: \<open>None\<close> is a call that never returns. The function below is the
  loop on the includes still to read; the repository is passed along and returned.
\<close>

type_synonym parse_file_fn = "string \<Rightarrow> FileCompletions \<Rightarrow> bool \<Rightarrow> FileCompletions"

partial_function (option) read_unscanned_imports_loop ::
  "parse_file_fn \<Rightarrow> repository \<Rightarrow> Include list \<Rightarrow> repository option" where
  "read_unscanned_imports_loop parse_file repo incs =
     (case incs of
        [] \<Rightarrow> Some repo
      | import_file # rest \<Rightarrow>
          (case map_of repo (inc_uri import_file) of
             Some completion \<Rightarrow> read_unscanned_imports_loop parse_file repo rest
           | None \<Rightarrow>
               (let new_completions =
                      parse_file (inc_uri import_file) (new_FileCompletions (inc_uri import_file))
                        (IsBuiltIn import_file)
                in Option.bind
                     (read_unscanned_imports_loop parse_file repo (fc_includes new_completions))
                     (\<lambda>repo1. read_unscanned_imports_loop parse_file
                        (AList.update (inc_uri import_file) new_completions repo1) rest))))"

definition read_unscanned_imports ::
  "parse_file_fn \<Rightarrow> repository \<Rightarrow> FileCompletions \<Rightarrow> repository option" where
  "read_unscanned_imports parse_file repo fc =
     read_unscanned_imports_loop parse_file repo (fc_includes fc)"

record TextDocument =
  doc_uri :: string
  doc_fsPath :: string
  doc_text :: string

record Position =
  line :: nat
  character :: nat

text \<open>
  \<^verbatim>\<open>parser.parse_blob\<close> is a parameter too: from the text, the fresh FileCompletions and the
  file identity to the filled FileCompletions.
\<close>

type_synonym parse_blob_fn = "string \<Rightarrow> FileCompletions \<Rightarrow> string \<Rightarrow> FileCompletions"

definition handle_new_document ::
  "parse_blob_fn \<Rightarrow> parse_file_fn \<Rightarrow> repository \<Rightarrow> TextDocument \<Rightarrow> repository option" where
  "handle_new_document parse_blob parse_file repo document =
     (let fc = parse_blob (doc_text document) (new_FileCompletions (doc_uri document))
                 (doc_uri document)
      in Option.bind (read_unscanned_imports parse_file repo fc)
           (\<lambda>repo1. Some (AList.update (doc_uri document) fc repo1)))"

definition handle_document_change ::
  "parse_blob_fn \<Rightarrow> repository \<Rightarrow> TextDocument \<Rightarrow> repository" where
  "handle_document_change parse_blob repo document =
     (let this_completions =
            parse_blob (doc_text document) (new_FileCompletions (doc_uri document))
              (doc_uri document)
      in AList.update (doc_uri document) this_completions repo)"

subsection \<open>Strings\<close>

text \<open>
  Characters are the code units below 256. \<^verbatim>\<open>line[i]\<close> is \<^verbatim>\<open>undefined\<close> out of range;
  \<^verbatim>\<open>trim\<close> and \<^verbatim>\<open>trimEnd\<close> remove white space and line terminators.
\<close>

datatype js_error = TypeError

definition char_at :: "string \<Rightarrow> nat \<Rightarrow> char option" where
  "char_at s i = (if i < length s then Some (s ! i) else None)"

definition is_word_char :: "char \<Rightarrow> bool" where
  "is_word_char c \<longleftrightarrow>
     c \<in> set ''ABCDEFGHIJKLMNOPQRSTUVWXYZabcdefghijklmnopqrstuvwxyz0123456789_''"

definition is_js_space :: "char \<Rightarrow> bool" where
  "is_js_space c \<longleftrightarrow>
     c \<in> {CHR 0x09, CHR 0x0A, CHR 0x0B, CHR 0x0C, CHR 0x0D, CHR 0x20, CHR 0xA0}"

definition trimEnd :: "string \<Rightarrow> string" where
  "trimEnd s = rev (dropWhile is_js_space (rev s))"

definition trim :: "string \<Rightarrow> string" where
  "trim s = trimEnd (dropWhile is_js_space s)"

text \<open>\<^verbatim>\<open>text.split("\n")\<close>\<close>

fun split_newline :: "string \<Rightarrow> string list" where
  "split_newline [] = [[]]"
| "split_newline (c # cs) =
     (if c = CHR 0x0A then [] # split_newline cs
      else (case split_newline cs of
              l # ls \<Rightarrow> (c # l) # ls
            | [] \<Rightarrow> [[c]]))"

definition nth_opt :: "'a list \<Rightarrow> nat \<Rightarrow> 'a option" where
  "nth_opt xs i = (if i < length xs then Some (xs ! i) else None)"

subsection \<open>get\_completions\<close>

text \<open>
  The backward scan of \<^verbatim>\<open>get_completions\<close>, \<^verbatim>\<open>for (i = line.length - 2; i >= 0; i--)\<close>; the
  argument is \<open>i + 1\<close>, so that \<open>0\<close> is the end of the loop.
\<close>

fun is_method_scan :: "string \<Rightarrow> nat \<Rightarrow> bool" where
  "is_method_scan ln 0 = False"
| "is_method_scan ln (Suc i) =
     (if is_word_char (ln ! i) then is_method_scan ln i
      else if ln ! i = CHR ''.'' then True
      else False)"

text \<open>
  The first part of \<^verbatim>\<open>get_completions\<close>: the value of \<^verbatim>\<open>is_method\<close>. A position whose line is
  not in the text makes \<^verbatim>\<open>trim\<close> be called on \<^verbatim>\<open>undefined\<close>, which throws.
\<close>

definition is_method_site :: "TextDocument \<Rightarrow> Position \<Rightarrow> js_error + bool" where
  "is_method_site document position =
     (case nth_opt (split_newline (doc_text document)) (line position) of
        None \<Rightarrow> Inl TypeError
      | Some l \<Rightarrow> (let ln = trim l in Inr (is_method_scan ln (length ln - 1))))"

text \<open>
  Both branches call \<^verbatim>\<open>filter\<close> on the items and return the list itself: \<^verbatim>\<open>filter\<close> builds a
  new array and leaves its receiver as it was. Every element of the repository is an
  instance of one of the classes, so the two guards inside \<^verbatim>\<open>map\<close> hold.
\<close>

definition get_completions ::
  "repository \<Rightarrow> TextDocument \<Rightarrow> Position \<Rightarrow> js_error + CompletionItem list" where
  "get_completions repo document position =
     (case is_method_site document position of
        Inl e \<Rightarrow> Inl e
      | Inr is_method \<Rightarrow>
          (let all_completions = get_all_completions repo (doc_uri document);
               items = map (\<lambda>completion. to_completion_item completion (doc_uri document))
                         all_completions
           in if is_method
              then (let discarded = filter (\<lambda>completion. kind completion = Kind_Method) items
                    in Inr items)
              else (let discarded = filter (\<lambda>completion. kind completion \<noteq> Kind_Method) items
                    in Inr items)))"

subsection \<open>provideSignatureHelp\<close>

record SignatureHelp =
  signatures :: "SignatureInformation option list"
  activeSignature :: nat
  activeParameter :: nat

text \<open>
  The loop \<^verbatim>\<open>for (i = position.character; i >= 0; i--)\<close>, its argument being \<open>i + 1\<close>.
  \<^verbatim>\<open>line[i].match\<close> on a column beyond the line would throw.
\<close>

fun scan_call :: "string \<Rightarrow> nat \<Rightarrow> bool \<Rightarrow> string \<Rightarrow> nat \<Rightarrow> js_error + (string \<times> nat)" where
  "scan_call ln 0 end_parameters method parameter_count = Inr (method, parameter_count)"
| "scan_call ln (Suc i) end_parameters method parameter_count =
     (if end_parameters then
        (case char_at ln i of
           None \<Rightarrow> Inl TypeError
         | Some c \<Rightarrow>
             if is_word_char c then scan_call ln i end_parameters (c # method) parameter_count
             else Inr (method, parameter_count))
      else if char_at ln i = Some CHR ''(''
        then scan_call ln i True method parameter_count
      else if char_at ln i = Some CHR '',''
        then scan_call ln i end_parameters method (parameter_count + 1)
      else scan_call ln i end_parameters method parameter_count)"

text \<open>
  The inner function of \<^verbatim>\<open>provideSignatureHelp\<close>: the name of the callable (\<open>None\<close> is
  \<^verbatim>\<open>undefined\<close>) and the parameter count.
\<close>

definition call_at :: "TextDocument \<Rightarrow> Position \<Rightarrow> js_error + (string option \<times> nat)" where
  "call_at document position =
     (case nth_opt (split_newline (doc_text document)) (line position) of
        None \<Rightarrow> Inl TypeError
      | Some ln \<Rightarrow>
          if character position \<noteq> 0 \<and> char_at ln (character position - 1) = Some CHR '')''
          then Inr (None, 0)
          else (case scan_call ln (Suc (character position)) False [] 0 of
                  Inl e \<Rightarrow> Inl e
                | Inr (method, parameter_count) \<Rightarrow> Inr (Some method, parameter_count)))"

definition no_signature :: SignatureHelp where
  "no_signature = \<lparr>signatures = [], activeSignature = 0, activeParameter = 0\<rparr>"

definition provideSignatureHelp ::
  "repository \<Rightarrow> TextDocument \<Rightarrow> Position \<Rightarrow> js_error + SignatureHelp" where
  "provideSignatureHelp repo document position =
     (case call_at document position of
        Inl e \<Rightarrow> Inl e
      | Inr (method, parameter_count) \<Rightarrow>
          (let found = filter (\<lambda>completion. Some (name completion) = method)
                         (get_all_completions repo (doc_uri document))
           in if length found > 0
              then Inr \<lparr>signatures = [get_signature (found ! 0)],
                        activeSignature = 0, activeParameter = parameter_count\<rparr>
              else Inr no_signature))"

subsection \<open>Example repositories\<close>

definition repo_example :: repository where
  "repo_example =
     [(''A.sp'', \<lparr>fc_completions = [(''fa'', FunctionCompletion ''fa'' ''void fa()'' '''' [])],
                 fc_includes = [\<lparr>inc_uri = ''B.inc'', IsBuiltIn = False\<rparr>,
                                \<lparr>inc_uri = ''C.inc'', IsBuiltIn = False\<rparr>],
                 fc_uri = ''A.sp''\<rparr>),
      (''B.inc'', \<lparr>fc_completions = [(''fb'', FunctionCompletion ''fb'' ''void fb()'' '''' [])],
                 fc_includes = [\<lparr>inc_uri = ''D.inc'', IsBuiltIn = False\<rparr>,
                                \<lparr>inc_uri = ''A.sp'', IsBuiltIn = False\<rparr>],
                 fc_uri = ''B.inc''\<rparr>),
      (''C.inc'', \<lparr>fc_completions = [(''vc'', VariableCompletion ''vc'' ''C.inc'')],
                 fc_includes = [\<lparr>inc_uri = ''D.inc'', IsBuiltIn = False\<rparr>],
                 fc_uri = ''C.inc''\<rparr>),
      (''D.inc'', \<lparr>fc_completions = [(''DD'', DefineCompletion ''DD'')],
                 fc_includes = [\<lparr>inc_uri = ''E.inc'', IsBuiltIn = True\<rparr>],
                 fc_uri = ''D.inc''\<rparr>)]"

definition cyclic_parse_file :: parse_file_fn where
  "cyclic_parse_file file fc builtin =
     (if file = ''A.sp'' then add_include ''B.inc'' builtin fc
      else if file = ''B.inc'' then add_include ''A.sp'' builtin fc
      else fc)"

definition cyclic_parse_blob :: parse_blob_fn where
  "cyclic_parse_blob text fc file = cyclic_parse_file file fc False"

section \<open>Properties of the completion repository\<close>

subsection \<open>The visible items of a file\<close>

lemma loop_grows: "set files \<subseteq> set (get_included_files_loop repo incs files)"
  by (induction repo incs files rule: get_included_files_loop.induct)
     (auto split: option.splits, blast)

lemma loop_grows_elem: "x \<in> set files \<Longrightarrow> x \<in> set (get_included_files_loop repo incs files)"
  using loop_grows by blast

lemma loop_covers_includes:
  "inc_uri ` set incs \<subseteq> set (get_included_files_loop repo incs files)"
proof (induction repo incs files rule: get_included_files_loop.induct)
  case (1 repo files)
  then show ?case by simp
next
  case (2 repo incl rest files)
  show ?case
  proof (cases "inc_uri incl \<in> set files")
    case True
    then show ?thesis using 2(1)[OF True] by (simp add: loop_grows_elem)
  next
    case False
    show ?thesis
    proof (cases "map_of repo (inc_uri incl)")
      case None
      then show ?thesis using False 2(2)[OF False None] by (simp add: loop_grows_elem)
    next
      case (Some fc)
      then show ?thesis using False 2(4)[OF False Some] by (simp add: loop_grows_elem)
    qed
  qed
qed

lemma loop_distinct:
  "distinct files \<Longrightarrow> distinct (get_included_files_loop repo incs files)"
  by (induction repo incs files rule: get_included_files_loop.induct)
     (simp_all split: option.splits)

lemma edge_targets_reachable:
  assumes "map_of repo u = Some fc"
  shows "(include_edges repo)\<^sup>* `` (inc_uri ` set (fc_includes fc))
           \<subseteq> (include_edges repo)\<^sup>* `` {u}"
proof
  fix x assume "x \<in> (include_edges repo)\<^sup>* `` (inc_uri ` set (fc_includes fc))"
  then obtain i where i: "i \<in> set (fc_includes fc)"
    and reach: "(inc_uri i, x) \<in> (include_edges repo)\<^sup>*"
    by blast
  have "(u, inc_uri i) \<in> include_edges repo"
    using assms i by (auto simp: include_edges_def)
  then have "(u, x) \<in> (include_edges repo)\<^sup>*"
    using reach by (rule converse_rtrancl_into_rtrancl)
  then show "x \<in> (include_edges repo)\<^sup>* `` {u}" by blast
qed

lemma loop_sound:
  "set (get_included_files_loop repo incs files)
     \<subseteq> set files \<union> (include_edges repo)\<^sup>* `` (inc_uri ` set incs)"
proof (induction repo incs files rule: get_included_files_loop.induct)
  case (1 repo files)
  then show ?case by simp
next
  case (2 repo incl rest files)
  define A where "A = (include_edges repo)\<^sup>* `` {inc_uri incl}"
  define B where "B = (include_edges repo)\<^sup>* `` (inc_uri ` set rest)"
  have goal_sets: "(include_edges repo)\<^sup>* `` (inc_uri ` set (incl # rest)) = A \<union> B"
    unfolding A_def B_def by (simp only: list.set image_insert) blast
  have self: "inc_uri incl \<in> A"
    unfolding A_def by blast
  show ?case
  proof (cases "inc_uri incl \<in> set files")
    case True
    have "set (get_included_files_loop repo rest files) \<subseteq> set files \<union> B"
      using 2(1)[OF True] by (simp add: B_def)
    then show ?thesis
      unfolding goal_sets using True by auto
  next
    case False
    show ?thesis
    proof (cases "map_of repo (inc_uri incl)")
      case None
      have "set (get_included_files_loop repo rest (files @ [inc_uri incl]))
              \<subseteq> set (files @ [inc_uri incl]) \<union> B"
        using 2(2)[OF False None] by (simp add: B_def)
      then have "set (get_included_files_loop repo (incl # rest) files)
              \<subseteq> insert (inc_uri incl) (set files) \<union> B"
        using False None by simp
      then show ?thesis
        unfolding goal_sets using self by blast
    next
      case (Some fc)
      define F1 where "F1 = get_included_files_loop repo (fc_includes fc) (files @ [inc_uri incl])"
      define C where "C = (include_edges repo)\<^sup>* `` (inc_uri ` set (fc_includes fc))"
      have "set F1 \<subseteq> set (files @ [inc_uri incl]) \<union> C"
        using 2(3)[OF False Some] by (simp add: F1_def C_def)
      then have f1: "set F1 \<subseteq> insert (inc_uri incl) (set files) \<union> C"
        by simp
      have res: "set (get_included_files_loop repo rest F1) \<subseteq> set F1 \<union> B"
        using 2(4)[OF False Some] by (simp add: F1_def B_def)
      have c: "C \<subseteq> A"
        unfolding C_def A_def by (rule edge_targets_reachable [OF Some])
      have eq: "get_included_files_loop repo (incl # rest) files
                  = get_included_files_loop repo rest F1"
        using False Some by (simp add: F1_def)
      show ?thesis
        unfolding goal_sets eq using f1 res c self by blast
    qed
  qed
qed

lemma loop_closed:
  "x \<in> set (get_included_files_loop repo incs files) \<Longrightarrow> x \<notin> set files \<Longrightarrow>
     include_edges repo `` {x} \<subseteq> set (get_included_files_loop repo incs files)"
proof (induction repo incs files arbitrary: x rule: get_included_files_loop.induct)
  case (1 repo files)
  then show ?case by simp
next
  case (2 repo incl rest files)
  show ?case
  proof (cases "inc_uri incl \<in> set files")
    case True
    then show ?thesis using 2(1)[OF True] 2(5,6) by simp
  next
    case False
    show ?thesis
    proof (cases "map_of repo (inc_uri incl)")
      case None
      have noedge: "include_edges repo `` {inc_uri incl} = {}"
        using None by (auto simp: include_edges_def)
      show ?thesis
      proof (cases "x = inc_uri incl")
        case True
        then show ?thesis using noedge by simp
      next
        case xne: False
        then show ?thesis using 2(2)[OF False None, of x] 2(5,6) False None by simp
      qed
    next
      case (Some fc)
      let ?F1 = "get_included_files_loop repo (fc_includes fc) (files @ [inc_uri incl])"
      let ?res = "get_included_files_loop repo rest ?F1"
      have res: "get_included_files_loop repo (incl # rest) files = ?res"
        using False Some by simp
      have F1res: "set ?F1 \<subseteq> set ?res" by (rule loop_grows)
      show ?thesis
      proof (cases "x \<in> set ?F1")
        case xF1: True
        show ?thesis
        proof (cases "x = inc_uri incl")
          case True
          have "include_edges repo `` {x} = inc_uri ` set (fc_includes fc)"
            using Some True by (auto simp: include_edges_def)
          also have "\<dots> \<subseteq> set ?F1" by (rule loop_covers_includes)
          finally show ?thesis using F1res res by auto
        next
          case False
          then have "x \<notin> set (files @ [inc_uri incl])" using 2(6) by simp
          from 2(3)[OF \<open>inc_uri incl \<notin> set files\<close> Some xF1 this]
          show ?thesis using F1res res by auto
        qed
      next
        case xnF1: False
        have "x \<in> set ?res" using 2(5) res by simp
        from 2(4)[OF \<open>inc_uri incl \<notin> set files\<close> Some this xnF1]
        show ?thesis using res by simp
      qed
    qed
  qed
qed

lemma foldl_append_concat: "foldl (\<lambda>a b. a @ b) acc xss = acc @ concat xss"
  by (induction xss arbitrary: acc) simp_all

lemma loop_reaches_closure:
  "set (get_included_files_loop repo incs []) = (include_edges repo)\<^sup>* `` (inc_uri ` set incs)"
proof
  show "set (get_included_files_loop repo incs [])
          \<subseteq> (include_edges repo)\<^sup>* `` (inc_uri ` set incs)"
    using loop_sound [of repo incs "[]"] by simp
next
  let ?S = "set (get_included_files_loop repo incs [])"
  have closed: "b \<in> ?S" if "a \<in> ?S" and "(a, b) \<in> include_edges repo" for a b
    using loop_closed [of a repo incs "[]"] that by auto
  have reach: "b \<in> ?S" if "(a, b) \<in> (include_edges repo)\<^sup>*" and "a \<in> ?S" for a b
    using that by (induction rule: rtrancl_induct) (auto intro: closed)
  have start: "inc_uri ` set incs \<subseteq> ?S" by (rule loop_covers_includes)
  show "(include_edges repo)\<^sup>* `` (inc_uri ` set incs) \<subseteq> ?S"
  proof
    fix x assume "x \<in> (include_edges repo)\<^sup>* `` (inc_uri ` set incs)"
    then obtain a where "a \<in> inc_uri ` set incs" and "(a, x) \<in> (include_edges repo)\<^sup>*"
      by blast
    then show "x \<in> ?S" using reach start by blast
  qed
qed

lemma edges_of_indexed:
  "map_of repo file = Some fc \<Longrightarrow> include_edges repo `` {file} = inc_uri ` set (fc_includes fc)"
  by (auto simp: include_edges_def)

lemma edges_of_unindexed:
  "map_of repo file = None \<Longrightarrow> include_edges repo `` {file} = {}"
  by (auto simp: include_edges_def)

lemma trancl_image_unfold: "r\<^sup>+ `` {a} = r\<^sup>* `` (r `` {a})"
proof
  show "r\<^sup>+ `` {a} \<subseteq> r\<^sup>* `` (r `` {a})"
  proof
    fix x assume "x \<in> r\<^sup>+ `` {a}"
    then have "(a, x) \<in> r\<^sup>+" by blast
    then obtain b where "(a, b) \<in> r" and "(b, x) \<in> r\<^sup>*"
      by (blast dest: tranclD)
    then show "x \<in> r\<^sup>* `` (r `` {a})" by blast
  qed
next
  show "r\<^sup>* `` (r `` {a}) \<subseteq> r\<^sup>+ `` {a}"
  proof
    fix x assume "x \<in> r\<^sup>* `` (r `` {a})"
    then obtain b where "(a, b) \<in> r" and "(b, x) \<in> r\<^sup>*" by blast
    then have "(a, x) \<in> r\<^sup>+" by (rule rtrancl_into_trancl2)
    then show "x \<in> r\<^sup>+ `` {a}" by blast
  qed
qed

lemma visible_files_unindexed:
  "map_of repo file = None \<Longrightarrow> visible_files repo file = [file]"
  by (simp add: visible_files_def set_add_def)

lemma visible_files_indexed:
  "map_of repo file = Some fc \<Longrightarrow>
     visible_files repo file = set_add file (get_included_files_loop repo (fc_includes fc) [])"
  by (simp add: visible_files_def get_included_files_def)

lemma set_set_add: "set (set_add x xs) = {x} \<union> set xs"
  by (auto simp: set_add_def)

lemma distinct_set_add: "distinct xs \<Longrightarrow> distinct (set_add x xs)"
  by (simp add: set_add_def)

lemma visible_files_set:
  "set (visible_files repo file) = {file} \<union> transitiveIncludes repo file"
proof (cases "map_of repo file")
  case None
  have "transitiveIncludes repo file = {}"
    unfolding transitiveIncludes_def trancl_image_unfold edges_of_unindexed [OF None] by blast
  then show ?thesis
    by (simp add: visible_files_unindexed [OF None])
next
  case (Some fc)
  have "transitiveIncludes repo file = set (get_included_files_loop repo (fc_includes fc) [])"
    unfolding transitiveIncludes_def trancl_image_unfold edges_of_indexed [OF Some]
      loop_reaches_closure ..
  then show ?thesis
    by (simp only: visible_files_indexed [OF Some] set_set_add)
qed

lemma visible_files_distinct: "distinct (visible_files repo file)"
proof (cases "map_of repo file")
  case None
  then show ?thesis by (simp add: visible_files_unindexed)
next
  case (Some fc)
  then show ?thesis
    by (simp add: visible_files_indexed distinct_set_add loop_distinct)
qed

text \<open>
  Claim C2. For every file identity and every repository state, \<^verbatim>\<open>get_all_completions\<close>
  returns the concatenation of the item tables of the files it has collected; these files
  are pairwise different, so each contributes exactly once, and they are exactly the
  queried file together with its transitive includes, whatever cycles or diamonds the
  include graph has.
\<close>

theorem get_all_completions_closure:
  "get_all_completions repo file =
     concat (map (get_file_completions repo) (visible_files repo file))
   \<and> distinct (visible_files repo file)
   \<and> set (visible_files repo file) = {file} \<union> transitiveIncludes repo file"
proof (intro conjI)
  show "get_all_completions repo file =
     concat (map (get_file_completions repo) (visible_files repo file))"
    by (simp add: get_all_completions_def foldl_append_concat)
  show "distinct (visible_files repo file)"
    by (rule visible_files_distinct)
  show "set (visible_files repo file) = {file} \<union> transitiveIncludes repo file"
    by (rule visible_files_set)
qed

lemma visible_files_example:
  "visible_files repo_example ''A.sp'' = [''B.inc'', ''D.inc'', ''E.inc'', ''A.sp'', ''C.inc'']"
proof -
  have "get_included_files_loop repo_example
          [\<lparr>inc_uri = ''B.inc'', IsBuiltIn = False\<rparr>, \<lparr>inc_uri = ''C.inc'', IsBuiltIn = False\<rparr>] []
        = [''B.inc'', ''D.inc'', ''E.inc'', ''A.sp'', ''C.inc'']"
    by (simp add: repo_example_def)
  moreover have "map_of repo_example ''A.sp'' = Some (snd (hd repo_example))"
    by (simp add: repo_example_def)
  moreover have "fc_includes (snd (hd repo_example)) =
      [\<lparr>inc_uri = ''B.inc'', IsBuiltIn = False\<rparr>, \<lparr>inc_uri = ''C.inc'', IsBuiltIn = False\<rparr>]"
    by (simp add: repo_example_def)
  ultimately show ?thesis
    by (simp add: visible_files_def get_included_files_def set_add_def)
qed

lemma file_completions_example:
  "map (get_file_completions repo_example) [''B.inc'', ''D.inc'', ''E.inc'', ''A.sp'', ''C.inc'']
      = [[FunctionCompletion ''fb'' ''void fb()'' '''' []], [DefineCompletion ''DD''], [],
         [FunctionCompletion ''fa'' ''void fa()'' '''' []], [VariableCompletion ''vc'' ''C.inc'']]"
  by (simp add: get_file_completions_def repo_example_def fc_get_completions_def)

lemma get_all_completions_example:
  "get_all_completions repo_example ''A.sp'' =
     [FunctionCompletion ''fb'' ''void fb()'' '''' [], DefineCompletion ''DD'',
      FunctionCompletion ''fa'' ''void fa()'' '''' [], VariableCompletion ''vc'' ''C.inc'']"
  unfolding get_all_completions_def visible_files_example file_completions_example
  by simp

theorem get_all_completions_closure_witness:
  "get_all_completions repo_example ''A.sp'' =
     [FunctionCompletion ''fb'' ''void fb()'' '''' [], DefineCompletion ''DD'',
      FunctionCompletion ''fa'' ''void fa()'' '''' [], VariableCompletion ''vc'' ''C.inc'']
   \<and> {''A.sp''} \<union> transitiveIncludes repo_example ''A.sp''
       = {''B.inc'', ''D.inc'', ''E.inc'', ''A.sp'', ''C.inc''}"
proof -
  have "set (visible_files repo_example ''A.sp'')
          = {''A.sp''} \<union> transitiveIncludes repo_example ''A.sp''"
    using get_all_completions_closure [of repo_example "''A.sp''"] by (elim conjE)
  then have "{''A.sp''} \<union> transitiveIncludes repo_example ''A.sp''
          = set [''B.inc'', ''D.inc'', ''E.inc'', ''A.sp'', ''C.inc'']"
    unfolding visible_files_example by (rule sym)
  also have "\<dots> = {''B.inc'', ''D.inc'', ''E.inc'', ''A.sp'', ''C.inc''}"
    by (simp only: list.set)
  finally show ?thesis
    using get_all_completions_example by (intro conjI)
qed

subsection \<open>Cyclic includes while indexing\<close>

lemma cyclic_includes_never_read:
  assumes "read_unscanned_imports_loop parse_file repo incs = Some y"
  shows "\<not> (parse_file = cyclic_parse_file \<and> repo = [] \<and> incs \<noteq> []
            \<and> inc_uri (hd incs) \<in> {''A.sp'', ''B.inc''})"
proof (rule read_unscanned_imports_loop.raw_induct
    [where P = "\<lambda>parse_file repo incs y. \<not> (parse_file = cyclic_parse_file \<and> repo = []
        \<and> incs \<noteq> [] \<and> inc_uri (hd incs) \<in> {''A.sp'', ''B.inc''})", OF _ assms], goal_cases)
  case (1 f parse_file repo incs y)
  show ?case
  proof
    assume bad: "parse_file = cyclic_parse_file \<and> repo = [] \<and> incs \<noteq> []
            \<and> inc_uri (hd incs) \<in> {''A.sp'', ''B.inc''}"
    then obtain import_file rest where incs: "incs = import_file # rest"
      by (cases incs) auto
    define new where "new = cyclic_parse_file (inc_uri import_file)
        (new_FileCompletions (inc_uri import_file)) (IsBuiltIn import_file)"
    from 1(2) bad incs obtain repo1
      where inner: "f cyclic_parse_file [] (fc_includes new) = Some repo1"
      by (auto simp: Let_def new_def split: Option.bind_splits)
    have nonempty: "fc_includes new \<noteq> []"
      and target: "inc_uri (hd (fc_includes new)) \<in> {''A.sp'', ''B.inc''}"
      using bad incs
      by (auto simp: new_def cyclic_parse_file_def add_include_def new_FileCompletions_def)
    from 1(1)[OF inner] nonempty target show False by blast
  qed
qed

text \<open>
  Claim C1. The claim is that indexing the includes of a file ends when two files include
  each other. It does not: \<^verbatim>\<open>read_unscanned_imports\<close> looks a file up in the repository
  before reading it, but stores it only after the recursive call on its includes has
  returned. With \<open>A.sp\<close> including \<open>B.inc\<close>, \<open>B.inc\<close> including \<open>A.sp\<close> and neither indexed yet,
  opening \<open>A.sp\<close> never returns.
\<close>

theorem handle_new_document_cyclic_diverges:
  "handle_new_document cyclic_parse_blob cyclic_parse_file []
     \<lparr>doc_uri = ''A.sp'', doc_fsPath = ''A.sp'', doc_text = ''#include \"B\"''\<rparr> = None"
proof -
  have "read_unscanned_imports_loop cyclic_parse_file []
          [\<lparr>inc_uri = ''B.inc'', IsBuiltIn = False\<rparr>] = None"
    using cyclic_includes_never_read
      [of cyclic_parse_file "[]" "[\<lparr>inc_uri = ''B.inc'', IsBuiltIn = False\<rparr>]"]
    by (cases "read_unscanned_imports_loop cyclic_parse_file []
                 [\<lparr>inc_uri = ''B.inc'', IsBuiltIn = False\<rparr>]") auto
  then show ?thesis
    by (simp add: handle_new_document_def read_unscanned_imports_def cyclic_parse_blob_def
        cyclic_parse_file_def add_include_def new_FileCompletions_def)
qed

end
